theory Spec2Isabelle
  imports Main "HOL-Library.Sublist"
begin

section \<open>Python strings and sequences\<close>

text \<open>
  Text is a \<^typ>\<open>string\<close>; the characters are read as ASCII code points. The library
  operations the repository calls on \<open>str\<close> are written out for that range:
  \<open>str.lower\<close>, \<open>str.split()\<close>, \<open>str.strip()\<close>, the membership test
  \<open>w in t\<close>, \<open>str.rfind\<close>, \<open>str.join\<close>, slicing, and the substitution
  \<open>re.sub(r'\s+', ' ', text)\<close>.
\<close>

definition is_space :: "char \<Rightarrow> bool" where
  \<comment> \<open>\<open>str.isspace\<close> on ASCII: tab, LF, VT, FF, CR, the separators 0x1C to 0x1F, space.\<close>
  "is_space c = (let n = (of_char c :: nat) in (9 \<le> n \<and> n \<le> 13) \<or> (28 \<le> n \<and> n \<le> 32))"

definition lower_char :: "char \<Rightarrow> char" where
  "lower_char c = (let n = (of_char c :: nat) in if 65 \<le> n \<and> n \<le> 90 then char_of (n + 32) else c)"

definition py_lower :: "string \<Rightarrow> string" where
  "py_lower s = map lower_char s"

fun split_from :: "string \<Rightarrow> string \<Rightarrow> string list" where
  "split_from w [] = (if w = [] then [] else [w])"
| "split_from w (c # cs) =
     (if is_space c then (if w = [] then split_from [] cs else w # split_from [] cs)
      else split_from (w @ [c]) cs)"

definition py_split :: "string \<Rightarrow> string list" where
  \<comment> \<open>\<open>s.split()\<close>: the maximal runs of non-whitespace characters, in order.\<close>
  "py_split s = split_from [] s"

definition py_strip :: "string \<Rightarrow> string" where
  "py_strip s = rev (dropWhile is_space (rev (dropWhile is_space s)))"

fun py_in :: "string \<Rightarrow> string \<Rightarrow> bool" where
  \<comment> \<open>\<open>w in t\<close> on strings: \<open>w\<close> occurs in \<open>t\<close> as a contiguous block.\<close>
  "py_in w [] = (w = [])"
| "py_in w (c # cs) = (prefix w (c # cs) \<or> py_in w cs)"

fun py_join :: "string \<Rightarrow> string list \<Rightarrow> string" where
  "py_join sep [] = []"
| "py_join sep [x] = x"
| "py_join sep (x # y # ys) = x @ sep @ py_join sep (y # ys)"

definition adjust_index :: "int \<Rightarrow> nat \<Rightarrow> nat" where
  \<comment> \<open>How a slice bound is read: a negative bound counts from the end, then it is clamped.\<close>
  "adjust_index i n =
     (if i < 0 then (if i + int n < 0 then 0 else nat (i + int n))
      else if int n < i then n else nat i)"

definition py_slice :: "'a list \<Rightarrow> int \<Rightarrow> int \<Rightarrow> 'a list" where
  \<comment> \<open>\<open>xs[i:j]\<close>\<close>
  "py_slice xs i j =
     (let a = adjust_index i (length xs); b = adjust_index j (length xs)
      in take (b - a) (drop a xs))"

section \<open>Stored chunks and their content\<close>

text \<open>
  A chunk's content is a Python value. The code tells three shapes apart: a \<open>str\<close>, a
  \<open>dict\<close>, anything else. Of a value that is neither it observes the type name (in the
  message of an \<open>AttributeError\<close>), \<open>str(v)\<close> and \<open>bool(v)\<close>; \<open>Other\<close> carries
  these three. The values held by a \<open>dict\<close> are only read under the key \<open>ocr_text\<close>,
  again as a \<open>str\<close> or through the same three observations.
\<close>

datatype pyvalue = Str string | Other (type_name: string) (str_of: string) (truthy: bool)

datatype pycontent = Value pyvalue | Dict "(string \<times> pyvalue) list"

record chunk =
  chunk_id :: nat
  filename :: "string option"
  content :: "pycontent option"

text \<open>
  \<open>json.loads\<close> is a parameter. On a string it returns the decoded value, or raises one
  of the exceptions that the code catches (\<open>JSONDecodeError\<close>; \<open>TypeError\<close> cannot
  arise on a \<open>str\<close>), or raises something else, which the handler lets through: a
  \<open>RecursionError\<close> on deeply nested brackets, a \<open>ValueError\<close> on an integer of more
  than 4300 digits. \<open>Raised\<close> carries the text of such an exception.
\<close>

datatype loads_result = Decoded pycontent | DecodeFailed | Raised string

datatype error = AttributeError string | JsonRaised string

fun py_str :: "pyvalue \<Rightarrow> string" where
  "py_str (Str s) = s"
| "py_str (Other t s b) = s"

fun py_bool :: "pyvalue \<Rightarrow> bool" where
  "py_bool (Str s) = (s \<noteq> [])"
| "py_bool (Other t s b) = b"

fun lower_method :: "pyvalue \<Rightarrow> error + string" where
  \<comment> \<open>\<open>v.lower()\<close>: only a \<open>str\<close> has the method.\<close>
  "lower_method (Str s) = Inr (py_lower s)"
| "lower_method (Other t s b) =
     Inl (AttributeError ([CHR 0x27] @ t @ [CHR 0x27] @ '' object has no attribute '' @ [CHR 0x27] @ ''lower'' @ [CHR 0x27]))"

definition dict_get :: "(string \<times> pyvalue) list \<Rightarrow> string \<Rightarrow> pyvalue \<Rightarrow> pyvalue" where
  \<comment> \<open>\<open>d.get(key, default)\<close>\<close>
  "dict_get d k dflt = (case map_of d k of None \<Rightarrow> dflt | Some v \<Rightarrow> v)"

definition get_content :: "chunk \<Rightarrow> pycontent" where
  \<comment> \<open>\<open>chunk.get('content', '')\<close>\<close>
  "get_content c = (case content c of None \<Rightarrow> Value (Str []) | Some v \<Rightarrow> v)"

definition decode_content :: "(string \<Rightarrow> loads_result) \<Rightarrow> pycontent \<Rightarrow> error + pycontent" where
  \<comment> \<open>A \<open>str\<close> is given to \<open>json.loads\<close>: the decoded value replaces it, a caught
      failure leaves it as it is, any other exception leaves the function.\<close>
  "decode_content loads v =
     (case v of
        Value (Str s) \<Rightarrow>
          (case loads s of
             Decoded d \<Rightarrow> Inr d
           | DecodeFailed \<Rightarrow> Inr (Value (Str s))
           | Raised m \<Rightarrow> Inl (JsonRaised m))
      | _ \<Rightarrow> Inr v)"

section \<open>Retrieval: \<open>QueryEngine._get_relevant_chunks\<close>\<close>

text \<open>
  The store is read once, by \<open>self.db.get_all_chunks()\<close>; its result is the parameter
  \<open>all_chunks\<close>, in the order of the store. The query words are a Python \<open>set\<close>; the
  code only counts over it, so a list without repetition stands for it.
\<close>

definition content_text :: "(string \<Rightarrow> loads_result) \<Rightarrow> chunk \<Rightarrow> error + string" where
  \<comment> \<open>The text a chunk is matched against (the loop body up to the scoring line).\<close>
  "content_text loads c =
     (case decode_content loads (get_content c) of
        Inl e \<Rightarrow> Inl e
      | Inr (Dict d) \<Rightarrow> lower_method (dict_get d ''ocr_text'' (Str []))
      | Inr (Value v) \<Rightarrow> Inr (py_lower (py_str v)))"

definition query_words :: "string \<Rightarrow> string list" where
  \<comment> \<open>\<open>set(query.lower().split())\<close>, as a list without repetition.\<close>
  "query_words query = remdups (py_split (py_lower query))"

definition score :: "string list \<Rightarrow> string \<Rightarrow> nat" where
  \<comment> \<open>\<open>sum(1 for word in query_words if word in content_text)\<close>\<close>
  "score ws t = length (filter (\<lambda>w. py_in w t) ws)"

definition chunk_score :: "(string \<Rightarrow> loads_result) \<Rightarrow> string \<Rightarrow> chunk \<Rightarrow> error + nat" where
  "chunk_score loads query c =
     (case content_text loads c of Inl e \<Rightarrow> Inl e | Inr t \<Rightarrow> Inr (score (query_words query) t))"

fun scored_chunks :: "(string \<Rightarrow> loads_result) \<Rightarrow> string \<Rightarrow> chunk list \<Rightarrow> error + (nat \<times> chunk) list" where
  "scored_chunks loads query [] = Inr []"
| "scored_chunks loads query (c # cs) =
     (case chunk_score loads query c of
        Inl e \<Rightarrow> Inl e
      | Inr s \<Rightarrow>
          (case scored_chunks loads query cs of
             Inl e \<Rightarrow> Inl e
           | Inr r \<Rightarrow> Inr (if 0 < s then (s, c) # r else r)))"


definition sort_desc :: "(nat \<times> chunk) list \<Rightarrow> (nat \<times> chunk) list" where
  \<comment> \<open>\<open>scored_chunks.sort(key=lambda x: x[0], reverse=True)\<close>: Python's sort is stable,
      also with \<open>reverse=True\<close>.\<close>
  "sort_desc xs = sort_key (\<lambda>x. - int (fst x)) xs"

definition get_relevant_chunks ::
  "(string \<Rightarrow> loads_result) \<Rightarrow> string \<Rightarrow> chunk list \<Rightarrow> int \<Rightarrow> error + chunk list" where
  "get_relevant_chunks loads query all_chunks limit =
     (case scored_chunks loads query all_chunks of
        Inl e \<Rightarrow> Inl e
      | Inr sc \<Rightarrow> Inr (map snd (py_slice (sort_desc sc) 0 limit)))"

definition readable :: "(string \<Rightarrow> loads_result) \<Rightarrow> chunk \<Rightarrow> bool" where
  \<comment> \<open>The chunk's content gives a text to match: \<open>json.loads\<close> lets no exception
      through on it, and it is not a record whose OCR field is something other than a
      string.\<close>
  "readable loads c = (case content_text loads c of Inl e \<Rightarrow> False | Inr t \<Rightarrow> True)"

section \<open>Context assembly: \<open>QueryEngine._prepare_context\<close>\<close>

definition nl :: string where
  "nl = [CHR 0x0A]"

definition apos :: string where
  "apos = [CHR 0x27]"

definition image_placeholder :: string where
  "image_placeholder = ''[Image content - visual information available]''"

definition get_filename :: "chunk \<Rightarrow> string" where
  \<comment> \<open>\<open>chunk.get('filename', 'Unknown')\<close>\<close>
  "get_filename c = (case filename c of None \<Rightarrow> ''Unknown'' | Some f \<Rightarrow> f)"

definition context_text :: "(string \<Rightarrow> loads_result) \<Rightarrow> chunk \<Rightarrow> error + string" where
  \<comment> \<open>The text a chunk is shown with: the placeholder is substituted inside the
      \<open>dict\<close> branch only.\<close>
  "context_text loads c =
     (case decode_content loads (get_content c) of
        Inl e \<Rightarrow> Inl e
      | Inr (Dict d) \<Rightarrow>
          (let v = dict_get d ''ocr_text'' (Str [])
           in if \<not> py_bool v then Inr image_placeholder else Inr (py_str v))
      | Inr (Value v) \<Rightarrow> Inr (py_str v))"

definition context_part :: "(string \<Rightarrow> loads_result) \<Rightarrow> chunk \<Rightarrow> error + string" where
  "context_part loads c =
     (case context_text loads c of
        Inl e \<Rightarrow> Inl e
      | Inr t \<Rightarrow> Inr (''Document: '' @ get_filename c @ nl @ ''Content:'' @ nl @ t @ nl))"

fun context_parts :: "(string \<Rightarrow> loads_result) \<Rightarrow> chunk list \<Rightarrow> error + string list" where
  \<comment> \<open>The loop that fills \<open>context_parts\<close>; an exception ends it.\<close>
  "context_parts loads [] = Inr []"
| "context_parts loads (c # cs) =
     (case context_part loads c of
        Inl e \<Rightarrow> Inl e
      | Inr p \<Rightarrow>
          (case context_parts loads cs of
             Inl e \<Rightarrow> Inl e
           | Inr ps \<Rightarrow> Inr (p # ps)))"

definition separator :: string where
  "separator = nl @ ''---'' @ nl"

definition prepare_context :: "(string \<Rightarrow> loads_result) \<Rightarrow> chunk list \<Rightarrow> error + string" where
  "prepare_context loads chunks =
     (case context_parts loads chunks of
        Inl e \<Rightarrow> Inl e
      | Inr ps \<Rightarrow> Inr (py_join separator ps))"

section \<open>The pipeline: \<open>QueryEngine.query\<close>\<close>

text \<open>
  The generation backend is a parameter: given the prompt it either raises, and \<open>Inl\<close>
  holds the text of the exception, or returns a response object. Of the response the
  code reads the attribute \<open>text\<close> when there is one, else the text of the first part of
  the first candidate when \<open>candidates\<close> is there and not empty (reading it may raise
  as well), else \<open>str(response)\<close>.
\<close>

record response =
  resp_text :: "string option"
  resp_candidates :: "(string + string) list option"
  resp_str :: string

definition response_text :: "response \<Rightarrow> string + string" where
  "response_text r =
     (case resp_text r of
        Some t \<Rightarrow> Inr t
      | None \<Rightarrow>
          (case resp_candidates r of
             Some (c # cs) \<Rightarrow> c
           | _ \<Rightarrow> Inr (resp_str r)))"

definition no_information :: string where
  "no_information =
     ''I couldn'' @ apos @ ''t find any relevant information in the processed files. '' @
     ''Please make sure you have uploaded and processed some files first.''"

definition model_error :: "string \<Rightarrow> string" where
  "model_error error_msg =
     ''Model error: The Gemini model is not available. Please check your API key and model configuration. Error: ''
     @ error_msg"

definition api_key_error :: "string \<Rightarrow> string" where
  "api_key_error error_msg =
     ''API key error: Please check your GEMINI_API_KEY in the .env file. Error: '' @ error_msg"

definition api_error :: "string \<Rightarrow> string" where
  "api_error error_msg = ''API error: '' @ error_msg"

definition classify_api_error :: "string \<Rightarrow> string" where
  \<comment> \<open>The inner \<open>except Exception as api_error\<close>.\<close>
  "classify_api_error error_msg =
     (if py_in ''404'' error_msg \<or> py_in ''not found'' (py_lower error_msg)
        then model_error error_msg
      else if py_in ''403'' error_msg \<or> py_in ''permission'' (py_lower error_msg)
        then api_key_error error_msg
      else api_error error_msg)"

fun error_str :: "error \<Rightarrow> string" where
  "error_str (AttributeError m) = m"
| "error_str (JsonRaised m) = m"

definition processing_error :: "string \<Rightarrow> string" where
  \<comment> \<open>The outer \<open>except Exception as e\<close>.\<close>
  "processing_error error_msg =
     (if py_in ''GEMINI_API_KEY'' error_msg
        then ''Configuration error: '' @ error_msg @ ''. Please set your GEMINI_API_KEY in the .env file.''
      else ''Error processing query: '' @ error_msg @ ''. Please check your configuration and try again.'')"

definition make_prompt :: "string \<Rightarrow> string \<Rightarrow> string" where
  "make_prompt context user_query =
     ''You are a helpful assistant that answers questions based on the provided context from various documents.''
     @ nl @ nl @ ''Context from documents:'' @ nl @ context @ nl @ nl
     @ ''User Question: '' @ user_query @ nl @ nl
     @ ''Please provide a clear, accurate answer based on the context above. If the information is not available in the context, say so. If you need to reference specific documents, mention the document names.''
     @ nl @ nl @ ''Answer:''"

definition query ::
  "(string \<Rightarrow> loads_result) \<Rightarrow> (string \<Rightarrow> string + response) \<Rightarrow> chunk list \<Rightarrow> string
     \<Rightarrow> string \<times> string list" where
  \<comment> \<open>The answer, and the prompts that were sent to the backend during the call.\<close>
  "query loads generate all_chunks user_query =
     (case get_relevant_chunks loads user_query all_chunks 10 of
        Inl e \<Rightarrow> (processing_error (error_str e), [])
      | Inr relevant_chunks \<Rightarrow>
          if relevant_chunks = [] then (no_information, [])
          else
            (case prepare_context loads relevant_chunks of
               Inl e \<Rightarrow> (processing_error (error_str e), [])
             | Inr context \<Rightarrow>
                 (let prompt = make_prompt context user_query
                  in case generate prompt of
                       Inl error_msg \<Rightarrow> (classify_api_error error_msg, [prompt])
                     | Inr r \<Rightarrow>
                         (case response_text r of
                            Inl error_msg \<Rightarrow> (classify_api_error error_msg, [prompt])
                          | Inr t \<Rightarrow> (t, [prompt])))))"

section \<open>Segmentation: \<open>TextProcessor._split_text\<close>\<close>

fun collapse_ws :: "bool \<Rightarrow> string \<Rightarrow> string" where
  \<comment> \<open>The flag says that the previous character belonged to a run of whitespace.\<close>
  "collapse_ws r [] = []"
| "collapse_ws r (c # cs) =
     (if is_space c then (if r then collapse_ws True cs else CHR '' '' # collapse_ws True cs)
      else c # collapse_ws False cs)"

definition re_sub_ws :: "string \<Rightarrow> string" where
  \<comment> \<open>\<open>re.sub(r'\s+', ' ', text)\<close>\<close>
  "re_sub_ws s = collapse_ws False s"

fun rfind_below :: "char \<Rightarrow> string \<Rightarrow> nat \<Rightarrow> nat \<Rightarrow> int" where
  \<comment> \<open>The highest index \<open>k\<close> with \<open>a \<le> k < b\<close> that holds the character, or \<open>-1\<close>.\<close>
  "rfind_below ch s a 0 = - 1"
| "rfind_below ch s a (Suc k) =
     (if k < a then - 1 else if s ! k = ch then int k else rfind_below ch s a k)"

definition py_rfind :: "string \<Rightarrow> char \<Rightarrow> int \<Rightarrow> int \<Rightarrow> int" where
  \<comment> \<open>\<open>s.rfind(ch, i, j)\<close>; the bounds are read as slice bounds.\<close>
  "py_rfind s ch i j = rfind_below ch s (adjust_index i (length s)) (adjust_index j (length s))"

record metadata =
  chunk_index :: nat
  start_pos :: int
  end_pos :: int

record segment =
  text_content :: string
  text_metadata :: "metadata option"

definition sentence_end :: "string \<Rightarrow> int \<Rightarrow> int \<Rightarrow> int" where
  "sentence_end s i j =
     max (max (max (py_rfind s (CHR ''.'') i j) (py_rfind s (CHR ''!'') i j))
              (py_rfind s (CHR ''?'') i j))
         (py_rfind s (CHR 0x0A) i j)"

definition chunk_end :: "string \<Rightarrow> int \<Rightarrow> int \<Rightarrow> int" where
  \<comment> \<open>The value of \<open>end\<close> when the chunk is cut: the boundary is looked for only when
      \<open>start + chunk_size\<close> is before the end of the text.\<close>
  "chunk_end s chunk_size start =
     (let fin = start + chunk_size
      in if fin < int (length s)
         then (let se = sentence_end s start fin in if start < se then se + 1 else fin)
         else fin)"

definition loop_body :: "string \<Rightarrow> int \<Rightarrow> int \<Rightarrow> int \<times> nat \<times> segment list \<Rightarrow> int \<times> nat \<times> segment list" where
  \<comment> \<open>One pass through the \<open>while\<close> loop, on the variables \<open>start\<close>, \<open>chunk_index\<close>,
      \<open>chunks\<close>.\<close>
  "loop_body s chunk_size overlap st =
     (case st of (start, index, chunks) \<Rightarrow>
        (let fin = chunk_end s chunk_size start;
             chunk_text = py_strip (py_slice s start fin);
             start' = max (start + 1) (fin - overlap)
         in if chunk_text \<noteq> []
            then (start', index + 1,
                  chunks @ [\<lparr>text_content = chunk_text,
                             text_metadata = Some \<lparr>chunk_index = index, start_pos = start, end_pos = fin\<rparr>\<rparr>])
            else (start', index, chunks)))"

function split_loop :: "string \<Rightarrow> int \<Rightarrow> int \<Rightarrow> int \<times> nat \<times> segment list \<Rightarrow> int \<times> nat \<times> segment list" where
  "split_loop s chunk_size overlap st =
     (if fst st < int (length s) then split_loop s chunk_size overlap (loop_body s chunk_size overlap st)
      else st)"
  by pat_completeness auto
termination
proof (relation "measure (\<lambda>(s, chunk_size, overlap, st). nat (int (length s) - fst st))")
  show "wf (measure (\<lambda>(s, chunk_size, overlap, st). nat (int (length s) - fst st)))"
    by simp
next
  fix s :: string and chunk_size overlap :: int and st :: "int \<times> nat \<times> segment list"
  assume "fst st < int (length s)"
  then show "((s, chunk_size, overlap, loop_body s chunk_size overlap st), (s, chunk_size, overlap, st))
      \<in> measure (\<lambda>(s, chunk_size, overlap, st). nat (int (length s) - fst st))"
    by (cases st) (auto simp add: loop_body_def Let_def)
qed

declare split_loop.simps [simp del]

definition split_text :: "string \<Rightarrow> int \<Rightarrow> int \<Rightarrow> segment list" where
  "split_text txt chunk_size overlap =
     (if txt = [] \<or> py_strip txt = [] then [\<lparr>text_content = [], text_metadata = None\<rparr>]
      else
        (let s = py_strip (re_sub_ws txt);
             chunks = snd (snd (split_loop s chunk_size overlap (0, 0, [])))
         in if chunks \<noteq> [] then chunks else [\<lparr>text_content = s, text_metadata = None\<rparr>]))"

section \<open>The rules as the specification words them\<close>

text \<open>
  The following definitions are written from the specification, not from the code; the
  theorems compare the code with them.
\<close>

definition is_boundary :: "char \<Rightarrow> bool" where
  "is_boundary ch = (ch = CHR ''.'' \<or> ch = CHR ''!'' \<or> ch = CHR ''?'' \<or> ch = CHR 0x0A)"

definition boundary_rule :: "string \<Rightarrow> int \<Rightarrow> int \<Rightarrow> int" where
  \<comment> \<open>Section 4.1: within the window from \<open>start\<close> to \<open>start + chunk_size\<close>, the rightmost
      boundary character strictly after \<open>start\<close> ends the chunk one character past it;
      otherwise the chunk ends at \<open>start + chunk_size\<close>.\<close>
  "boundary_rule s chunk_size start =
     (let hits = filter (\<lambda>k. is_boundary (s ! nat k))
                   [start + 1 .. min (start + chunk_size) (int (length s)) - 1]
      in if hits = [] then start + chunk_size else last hits + 1)"

definition decoded :: "(string \<Rightarrow> loads_result) \<Rightarrow> chunk \<Rightarrow> pycontent" where
  \<comment> \<open>Section 3: a consumer that sees a string attempts the structured decode first;
      if the decode fails, the content is plain text.\<close>
  "decoded loads c =
     (case get_content c of
        Value (Str s) \<Rightarrow> (case loads s of Decoded d \<Rightarrow> d | _ \<Rightarrow> Value (Str s))
      | v \<Rightarrow> v)"

definition canonical_text :: "(string \<Rightarrow> loads_result) \<Rightarrow> chunk \<Rightarrow> string" where
  \<comment> \<open>Section 4.2: the OCR field of a record, the placeholder when the record has none,
      the string itself when the content is not a record.\<close>
  "canonical_text loads c =
     (case decoded loads c of
        Dict d \<Rightarrow> (case map_of d ''ocr_text'' of None \<Rightarrow> image_placeholder | Some v \<Rightarrow> py_str v)
      | Value v \<Rightarrow> py_str v)"



section \<open>Sample data\<close>

definition no_json :: "string \<Rightarrow> loads_result" where
  \<comment> \<open>A decoder for a store in which no content string is JSON.\<close>
  "no_json s = DecodeFailed"

definition braces_json :: "string \<Rightarrow> loads_result" where
  \<comment> \<open>A decoder that knows the empty object.\<close>
  "braces_json s = (if s = ''{}'' then Decoded (Dict []) else DecodeFailed)"

definition chunk_beta :: chunk where
  "chunk_beta = \<lparr>chunk_id = 1, filename = Some ''a.txt'', content = Some (Value (Str ''Beta''))\<rparr>"

definition chunk_alpha_beta :: chunk where
  "chunk_alpha_beta = \<lparr>chunk_id = 2, filename = Some ''a.txt'', content = Some (Value (Str ''alpha beta''))\<rparr>"


definition chunk_image :: chunk where
  "chunk_image = \<lparr>chunk_id = 4, filename = None, content = Some (Value (Str ''{}''))\<rparr>"

definition chunk_scan :: chunk where
  "chunk_scan = \<lparr>chunk_id = 6, filename = Some ''scan.png'',
                  content = Some (Dict [(''ocr_text'', Str []), (''has_text'', Other ''bool'' ''False'' False)])\<rparr>"





definition backend_down :: "string \<Rightarrow> string \<Rightarrow> string + response" where
  \<comment> \<open>A backend that raises with the given text on every prompt.\<close>
  "backend_down error_msg prompt = Inl error_msg"


section \<open>Facts about the string operations\<close>

lemma py_in_sublist: "py_in w t = sublist w t"
  by (induction t) (simp_all add: sublist_Cons_right)

lemma split_from_nonempty: "x \<in> set (split_from w s) \<Longrightarrow> x \<noteq> []"
  by (induction s arbitrary: w) (auto split: if_splits)

lemma query_words_nonempty: "w \<in> set (query_words q) \<Longrightarrow> w \<noteq> []"
  unfolding query_words_def py_split_def using split_from_nonempty by auto



lemma score_Nil_text: "score (query_words q) [] = 0"
proof -
  have "filter (\<lambda>w. py_in w []) (query_words q) = []"
    using query_words_nonempty by (auto simp: filter_empty_conv)
  then show ?thesis by (simp add: score_def)
qed


lemma set_py_slice: "set (py_slice xs i j) \<subseteq> set xs"
  unfolding py_slice_def Let_def
  by (meson set_take_subset set_drop_subset subset_trans)

lemma lower_method_Inr: "lower_method v = Inr t \<Longrightarrow> \<exists>s. v = Str s \<and> t = py_lower s"
  by (cases v) auto


section \<open>Retrieval\<close>


lemma scored_chunks_unreadable:
  "\<not> list_all (readable loads) cs \<Longrightarrow> \<exists>e. scored_chunks loads q cs = Inl e"
  by (induction cs) (auto simp: readable_def chunk_score_def split: sum.splits)


lemma scored_chunks_fst:
  "scored_chunks loads q cs = Inr sc \<Longrightarrow> p \<in> set sc \<Longrightarrow>
     chunk_score loads q (snd p) = Inr (fst p) \<and> 0 < fst p"
  by (induction cs arbitrary: sc) (auto split: sum.splits if_splits)



lemma set_sort_desc: "set (sort_desc xs) = set xs"
  by (simp add: sort_desc_def)

lemma relevant_positive:
  assumes "get_relevant_chunks loads q cs limit = Inr r" and "c \<in> set r"
  shows "\<exists>s. chunk_score loads q c = Inr s \<and> 0 < s"
proof -
  from assms(1) obtain sc where sc: "scored_chunks loads q cs = Inr sc"
    and r: "r = map snd (py_slice (sort_desc sc) 0 limit)"
    by (auto simp: get_relevant_chunks_def split: sum.splits)
  from assms(2) r obtain p where "p \<in> set (py_slice (sort_desc sc) 0 limit)" and "c = snd p"
    by auto
  then have "p \<in> set sc"
    using set_py_slice [of "sort_desc sc" 0 limit] by (auto simp: set_sort_desc)
  with scored_chunks_fst [OF sc] \<open>c = snd p\<close> show ?thesis by blast
qed

lemma get_relevant_chunks_unreadable:
  assumes "\<not> list_all (readable loads) all_chunks"
  shows "\<exists>e. get_relevant_chunks loads q all_chunks limit = Inl e"
  using scored_chunks_unreadable [OF assms, of q] by (auto simp: get_relevant_chunks_def)


lemma loads_exception_escapes:
  assumes "content c = Some (Value (Str s))" and "loads s = Raised m"
  shows "get_relevant_chunks loads q (c # cs) limit = Inl (JsonRaised m)"
    and "prepare_context loads (c # cs) = Inl (JsonRaised m)"
    and "\<not> readable loads c"
  using assms
  by (simp_all add: get_relevant_chunks_def chunk_score_def content_text_def decode_content_def
      get_content_def prepare_context_def context_part_def context_text_def readable_def)


lemma decode_content_decoded:
  "decode_content loads (get_content c) = Inr v \<Longrightarrow> decoded loads c = v"
  by (auto simp: decode_content_def decoded_def split: pycontent.splits pyvalue.splits loads_result.splits)













text \<open>
  Claim C10. A chunk whose content decodes to a record with no \<open>ocr_text\<close> field, or with
  the empty string there, has score 0 for every query and is in no result of the retrieval.
\<close>

theorem record_without_ocr_text_unretrievable:
  assumes "decode_content loads (get_content c) = Inr (Dict d)"
    and "map_of d ''ocr_text'' = None \<or> map_of d ''ocr_text'' = Some (Str [])"
  shows "chunk_score loads q c = Inr 0
     \<and> (\<forall>all_chunks limit r. get_relevant_chunks loads q all_chunks limit = Inr r \<longrightarrow> c \<notin> set r)"
proof -
  have "content_text loads c = Inr []"
    using assms by (auto simp: content_text_def dict_get_def py_lower_def)
  then have s: "chunk_score loads q c = Inr 0"
    by (simp add: chunk_score_def score_Nil_text)
  then show ?thesis using relevant_positive [of loads q _ _ _ c] by fastforce
qed

theorem record_without_ocr_text_unretrievable_witness:
  "decode_content braces_json (get_content chunk_image) = Inr (Dict [])
   \<and> (map_of ([] :: (string \<times> pyvalue) list) ''ocr_text'' = None
        \<or> map_of ([] :: (string \<times> pyvalue) list) ''ocr_text'' = Some (Str []))
   \<and> chunk_score braces_json ''image content beta'' chunk_image = Inr 0
   \<and> get_relevant_chunks braces_json ''image content beta'' [chunk_image, chunk_scan, chunk_beta] 10
       = Inr [chunk_beta]
   \<and> chunk_image \<notin> set [chunk_beta]"
proof -
  have h1: "decode_content braces_json (get_content chunk_image) = Inr (Dict [])" by code_simp
  have h2: "map_of ([] :: (string \<times> pyvalue) list) ''ocr_text'' = None
        \<or> map_of ([] :: (string \<times> pyvalue) list) ''ocr_text'' = Some (Str [])" by simp
  note t = record_without_ocr_text_unretrievable [OF h1 h2, of "''image content beta''"]
  have r: "get_relevant_chunks braces_json ''image content beta'' [chunk_image, chunk_scan, chunk_beta] 10
       = Inr [chunk_beta]" by code_simp
  from t r have "chunk_image \<notin> set [chunk_beta]" by blast
  with t h1 h2 r show ?thesis by blast
qed

section \<open>Context assembly\<close>

lemma context_text_positive:
  assumes "chunk_score loads q c = Inr n" and "0 < n"
  shows "context_text loads c = Inr (canonical_text loads c) \<and> canonical_text loads c \<noteq> []"
proof -
  from assms obtain t where t: "content_text loads c = Inr t" and n: "n = score (query_words q) t"
    by (auto simp: chunk_score_def split: sum.splits)
  with assms(2) have ne: "t \<noteq> []" using score_Nil_text [of q] by auto
  from t obtain v where v: "decode_content loads (get_content c) = Inr v"
    by (auto simp: content_text_def split: sum.splits)
  note d = decode_content_decoded [OF v]
  from t ne v show ?thesis
    by (auto simp: d content_text_def context_text_def canonical_text_def dict_get_def py_lower_def
        split: pycontent.splits option.splits dest!: lower_method_Inr)
qed

lemma context_parts_map:
  assumes "\<forall>c \<in> set cs. context_part loads c = Inr (f c)"
  shows "context_parts loads cs = Inr (map f cs)"
  using assms by (induction cs) auto

lemma context_parts_retrieved:
  assumes "get_relevant_chunks loads q all_chunks limit = Inr r"
  shows "context_parts loads r =
     Inr (map (\<lambda>c. ''Document: '' @ get_filename c @ nl @ ''Content:'' @ nl
                  @ (if canonical_text loads c = [] then image_placeholder else canonical_text loads c)
                  @ nl) r)"
proof (rule context_parts_map, rule ballI)
  fix c assume "c \<in> set r"
  from relevant_positive [OF assms this] context_text_positive [of loads q c]
  show "context_part loads c = Inr (''Document: '' @ get_filename c @ nl @ ''Content:'' @ nl
                  @ (if canonical_text loads c = [] then image_placeholder else canonical_text loads c)
                  @ nl)"
    by (auto simp: context_part_def)
qed

lemma prepare_context_retrieved:
  assumes "get_relevant_chunks loads q all_chunks limit = Inr r"
  shows "\<exists>context. prepare_context loads r = Inr context"
  using context_parts_retrieved [OF assms] by (simp add: prepare_context_def)

text \<open>
  Claim C3, as stated: the canonical text of a record without OCR field is the placeholder,
  not the empty string. The code derives a chunk's text at two places. For the string
  \<open>{}\<close>, which decodes to a record without fields, the text that retrieval matches against
  is the empty string.
\<close>

theorem ranker_text_without_ocr_is_empty:
  "content_text braces_json chunk_image = Inr []
   \<and> content_text braces_json chunk_image \<noteq> Inr image_placeholder
   \<and> content_text braces_json chunk_image \<noteq> Inr (py_lower image_placeholder)"
  by code_simp


text \<open>
  Claim C3, amended. For a record without \<open>ocr_text\<close> field the text shown by the context
  assembler is the placeholder, which is not empty; the text matched by the retrieval is
  the empty string.
\<close>

theorem placeholder_in_context_only:
  assumes "decode_content loads (get_content c) = Inr (Dict d)" and "map_of d ''ocr_text'' = None"
  shows "context_text loads c = Inr image_placeholder \<and> image_placeholder \<noteq> []
     \<and> content_text loads c = Inr []"
  using assms
  by (simp add: context_text_def content_text_def dict_get_def image_placeholder_def py_lower_def)

theorem placeholder_in_context_only_witness:
  "decode_content braces_json (get_content chunk_image) = Inr (Dict [])
   \<and> map_of ([] :: (string \<times> pyvalue) list) ''ocr_text'' = None
   \<and> context_text braces_json chunk_image = Inr image_placeholder \<and> image_placeholder \<noteq> []
   \<and> content_text braces_json chunk_image = Inr []"
proof -
  have h1: "decode_content braces_json (get_content chunk_image) = Inr (Dict [])" by code_simp
  have h2: "map_of ([] :: (string \<times> pyvalue) list) ''ocr_text'' = None" by simp
  from placeholder_in_context_only [OF h1 h2] h1 h2 show ?thesis by simp
qed



section \<open>The pipeline\<close>

lemma error_prefix_distinct: "api_key_error m \<noteq> model_error m'"
  by (simp add: api_key_error_def model_error_def)


text \<open>
  Claim C6, as stated: an error text that contains \<open>403\<close> yields the message about the API
  key. The test for \<open>404\<close> and \<open>not found\<close> comes first: an error text with \<open>403\<close> and
  \<open>not found\<close> yields the message about the model.
\<close>

theorem forbidden_not_found_is_model_error:
  "py_in ''403'' ''403 Forbidden: the requested model was not found''
   \<and> fst (query no_json (backend_down ''403 Forbidden: the requested model was not found'') [chunk_alpha_beta] ''alpha'')
       = model_error ''403 Forbidden: the requested model was not found''
   \<and> fst (query no_json (backend_down ''403 Forbidden: the requested model was not found'') [chunk_alpha_beta] ''alpha'')
       \<noteq> api_key_error ''403 Forbidden: the requested model was not found''"
  by code_simp


text \<open>
  Claim C6, amended. When the retrieval returns chunks, \<open>context\<close> is the context assembled
  from them (there always is one, by \<open>prepare_context_retrieved\<close>) and the backend raises
  with the text \<open>error_msg\<close>, the call returns a string after one backend call: the
  message about the model when the text contains \<open>404\<close> or, in lower case, \<open>not found\<close>;
  otherwise the message about the API key when it contains \<open>403\<close> or, in lower case,
  \<open>permission\<close>; otherwise the generic message. The message about the API key is never
  the message about the model.
\<close>

theorem backend_failure_classified:
  assumes "get_relevant_chunks loads user_query all_chunks 10 = Inr relevant"
    and "relevant \<noteq> []"
    and "prepare_context loads relevant = Inr context"
    and "generate (make_prompt context user_query) = Inl error_msg"
  shows "query loads generate all_chunks user_query =
     ((if sublist ''404'' error_msg \<or> sublist ''not found'' (py_lower error_msg)
         then model_error error_msg
       else if sublist ''403'' error_msg \<or> sublist ''permission'' (py_lower error_msg)
         then api_key_error error_msg
       else api_error error_msg),
      [make_prompt context user_query])
     \<and> (\<forall>m m'. api_key_error m \<noteq> model_error m')"
  using assms
  by (simp add: query_def Let_def classify_api_error_def py_in_sublist error_prefix_distinct)

theorem backend_failure_classified_witness:
  "get_relevant_chunks no_json ''alpha'' [chunk_alpha_beta] 10 = Inr [chunk_alpha_beta]
   \<and> [chunk_alpha_beta] \<noteq> []
   \<and> prepare_context no_json [chunk_alpha_beta]
       = Inr (''Document: a.txt'' @ nl @ ''Content:'' @ nl @ ''alpha beta'' @ nl)
   \<and> backend_down ''403 Forbidden''
        (make_prompt (''Document: a.txt'' @ nl @ ''Content:'' @ nl @ ''alpha beta'' @ nl) ''alpha'')
       = Inl ''403 Forbidden''
   \<and> query no_json (backend_down ''403 Forbidden'') [chunk_alpha_beta] ''alpha'' =
       (api_key_error ''403 Forbidden'',
        [make_prompt (''Document: a.txt'' @ nl @ ''Content:'' @ nl @ ''alpha beta'' @ nl) ''alpha''])"
proof -
  have h1: "get_relevant_chunks no_json ''alpha'' [chunk_alpha_beta] 10 = Inr [chunk_alpha_beta]"
    by code_simp
  have h2: "[chunk_alpha_beta] \<noteq> []" by simp
  have h3: "prepare_context no_json [chunk_alpha_beta]
       = Inr (''Document: a.txt'' @ nl @ ''Content:'' @ nl @ ''alpha beta'' @ nl)" by code_simp
  have h4: "backend_down ''403 Forbidden''
        (make_prompt (''Document: a.txt'' @ nl @ ''Content:'' @ nl @ ''alpha beta'' @ nl) ''alpha'')
       = Inl ''403 Forbidden''"
    by (simp add: backend_down_def)
  have c: "\<not> (sublist ''404'' ''403 Forbidden'' \<or> sublist ''not found'' (py_lower ''403 Forbidden''))
       \<and> (sublist ''403'' ''403 Forbidden'' \<or> sublist ''permission'' (py_lower ''403 Forbidden''))"
    by code_simp
  from backend_failure_classified [where generate = "backend_down ''403 Forbidden''", OF h1 h2 h3 h4] c h1 h2 h3 h4
  show ?thesis by simp
qed

text \<open>
  Claim C7. When the retrieval with limit 10 returns no chunk, as it does on the empty
  store, the call returns the fixed message that asks for files to be processed first and
  sends no prompt to the backend; the message is not empty and is none of the error
  messages.
\<close>

theorem no_match_gives_no_information:
  assumes "get_relevant_chunks loads user_query all_chunks 10 = Inr []"
  shows "query loads generate all_chunks user_query = (no_information, [])
     \<and> query loads generate [] user_query = (no_information, [])
     \<and> no_information \<noteq> []
     \<and> (\<forall>m. no_information \<noteq> classify_api_error m \<and> no_information \<noteq> processing_error m)"
proof -
  have 1: "query loads generate all_chunks user_query = (no_information, [])"
    using assms by (simp add: query_def)
  have "get_relevant_chunks loads user_query [] 10 = Inr []"
    by (simp add: get_relevant_chunks_def sort_desc_def py_slice_def)
  then have 2: "query loads generate [] user_query = (no_information, [])"
    by (simp add: query_def)
  have 3: "no_information \<noteq> []" by (simp add: no_information_def)
  have 4: "no_information \<noteq> classify_api_error m \<and> no_information \<noteq> processing_error m" for m
    by (simp add: no_information_def classify_api_error_def processing_error_def model_error_def
        api_key_error_def api_error_def)
  from 1 2 3 4 show ?thesis by blast
qed

theorem no_match_gives_no_information_witness:
  "get_relevant_chunks no_json ''zebra'' [chunk_beta] 10 = Inr []
   \<and> query no_json (backend_down ''unreachable'') [chunk_beta] ''zebra'' = (no_information, [])
   \<and> query no_json (backend_down ''unreachable'') [] ''zebra'' = (no_information, [])"
proof -
  have h: "get_relevant_chunks no_json ''zebra'' [chunk_beta] 10 = Inr []" by code_simp
  from no_match_gives_no_information [OF h, of "backend_down ''unreachable''"] h show ?thesis by blast
qed


section \<open>Segmentation\<close>

lemma rfind_below_spec:
  "(rfind_below ch s a b = - 1 \<and> (\<forall>k. a \<le> k \<and> k < b \<longrightarrow> s ! k \<noteq> ch))
   \<or> (\<exists>r. rfind_below ch s a b = int r \<and> a \<le> r \<and> r < b \<and> s ! r = ch
          \<and> (\<forall>k. r < k \<and> k < b \<longrightarrow> s ! k \<noteq> ch))"
proof (induction b)
  case 0
  then show ?case by simp
next
  case (Suc b)
  show ?case
  proof (cases "b < a")
    case True
    then show ?thesis by auto
  next
    case False
    show ?thesis
    proof (cases "s ! b = ch")
      case True
      with False show ?thesis by auto
    next
      case neq: False
      from Suc show ?thesis
      proof
        assume "rfind_below ch s a b = - 1 \<and> (\<forall>k. a \<le> k \<and> k < b \<longrightarrow> s ! k \<noteq> ch)"
        with False neq show ?thesis by (auto simp: less_Suc_eq)
      next
        assume "\<exists>r. rfind_below ch s a b = int r \<and> a \<le> r \<and> r < b \<and> s ! r = ch
          \<and> (\<forall>k. r < k \<and> k < b \<longrightarrow> s ! k \<noteq> ch)"
        then obtain r where "rfind_below ch s a b = int r" "a \<le> r" "r < b" "s ! r = ch"
          "\<forall>k. r < k \<and> k < b \<longrightarrow> s ! k \<noteq> ch" by blast
        with False neq have "rfind_below ch s a (Suc b) = int r \<and> a \<le> r \<and> r < Suc b \<and> s ! r = ch
          \<and> (\<forall>k. r < k \<and> k < Suc b \<longrightarrow> s ! k \<noteq> ch)"
          by (auto simp: less_Suc_eq)
        then show ?thesis by blast
      qed
    qed
  qed
qed

lemma py_rfind_spec:
  assumes "0 \<le> i" "0 \<le> j" "j \<le> int (length s)"
  shows "(py_rfind s ch i j = - 1 \<or> (i \<le> py_rfind s ch i j \<and> py_rfind s ch i j < j \<and> s ! nat (py_rfind s ch i j) = ch))
     \<and> (\<forall>k. i \<le> k \<and> k < j \<and> s ! nat k = ch \<longrightarrow> k \<le> py_rfind s ch i j)"
proof -
  let ?a = "adjust_index i (length s)" and ?b = "adjust_index j (length s)"
  have b: "?b = nat j" using assms by (simp add: adjust_index_def)
  have a: "i < j \<Longrightarrow> ?a = nat i" using assms by (simp add: adjust_index_def)
  have a': "nat i \<le> ?a \<or> ?b \<le> ?a" using assms by (auto simp: adjust_index_def)
  have ai: "?a \<le> nat i" using assms by (auto simp: adjust_index_def)
  from rfind_below_spec [of ch s ?a ?b]
  show ?thesis
  proof
    assume h: "rfind_below ch s ?a ?b = - 1 \<and> (\<forall>k. ?a \<le> k \<and> k < ?b \<longrightarrow> s ! k \<noteq> ch)"
    have "\<not> (i \<le> k \<and> k < j \<and> s ! nat k = ch)" for k
    proof
      assume k: "i \<le> k \<and> k < j \<and> s ! nat k = ch"
      then have "?a \<le> nat k \<and> nat k < ?b" using a b assms by auto
      with h k show False by blast
    qed
    with h show ?thesis by (auto simp: py_rfind_def)
  next
    assume "\<exists>r. rfind_below ch s ?a ?b = int r \<and> ?a \<le> r \<and> r < ?b \<and> s ! r = ch
          \<and> (\<forall>k. r < k \<and> k < ?b \<longrightarrow> s ! k \<noteq> ch)"
    then obtain r where r: "rfind_below ch s ?a ?b = int r" "?a \<le> r" "r < ?b" "s ! r = ch"
       "\<forall>k. r < k \<and> k < ?b \<longrightarrow> s ! k \<noteq> ch" by blast
    have ij: "i < j" using r a' b assms by linarith
    have 1: "i \<le> int r \<and> int r < j" using r a [OF ij] b assms by linarith
    have 2: "k \<le> int r" if "i \<le> k \<and> k < j \<and> s ! nat k = ch" for k
    proof (rule ccontr)
      assume "\<not> k \<le> int r"
      then have "r < nat k \<and> nat k < ?b" using that b assms by linarith
      with r(5) that show False by blast
    qed
    show ?thesis using r 1 2 by (simp add: py_rfind_def)
  qed
qed

lemma rightmost_max:
  fixes v1 v2 i j :: int
  assumes "0 \<le> i"
    and "(v1 = - 1 \<or> (i \<le> v1 \<and> v1 < j \<and> P1 (s ! nat v1))) \<and> (\<forall>k. i \<le> k \<and> k < j \<and> P1 (s ! nat k) \<longrightarrow> k \<le> v1)"
    and "(v2 = - 1 \<or> (i \<le> v2 \<and> v2 < j \<and> P2 (s ! nat v2))) \<and> (\<forall>k. i \<le> k \<and> k < j \<and> P2 (s ! nat k) \<longrightarrow> k \<le> v2)"
  shows "(max v1 v2 = - 1 \<or> (i \<le> max v1 v2 \<and> max v1 v2 < j \<and> (P1 (s ! nat (max v1 v2)) \<or> P2 (s ! nat (max v1 v2)))))
     \<and> (\<forall>k. i \<le> k \<and> k < j \<and> (P1 (s ! nat k) \<or> P2 (s ! nat k)) \<longrightarrow> k \<le> max v1 v2)"
proof (cases "v1 \<le> v2")
  case True
  then have m: "max v1 v2 = v2" by simp
  show ?thesis unfolding m using assms True by force
next
  case False
  then have m: "max v1 v2 = v1" by simp
  show ?thesis unfolding m using assms False by force
qed

lemma sentence_end_spec:
  assumes "0 \<le> i" "0 \<le> j" "j \<le> int (length s)"
  shows "(sentence_end s i j = - 1
          \<or> (i \<le> sentence_end s i j \<and> sentence_end s i j < j \<and> is_boundary (s ! nat (sentence_end s i j))))
     \<and> (\<forall>k. i \<le> k \<and> k < j \<and> is_boundary (s ! nat k) \<longrightarrow> k \<le> sentence_end s i j)"
proof -
  note A = py_rfind_spec [OF assms, of "CHR ''.''"] and B = py_rfind_spec [OF assms, of "CHR ''!''"]
    and C = py_rfind_spec [OF assms, of "CHR ''?''"] and D = py_rfind_spec [OF assms, of "CHR 0x0A"]
  note AB = rightmost_max [where ?P1.0 = "\<lambda>c. c = CHR ''.''" and ?P2.0 = "\<lambda>c. c = CHR ''!''", OF assms(1) A B]
  note ABC = rightmost_max [where ?P2.0 = "\<lambda>c. c = CHR ''?''", OF assms(1) AB C]
  note ABCD = rightmost_max [where ?P2.0 = "\<lambda>c. c = CHR 0x0A", OF assms(1) ABC D]
  show ?thesis
    using ABCD unfolding sentence_end_def is_boundary_def by (simp add: disj_ac)
qed

lemma sorted_le_last: "sorted xs \<Longrightarrow> k \<in> set xs \<Longrightarrow> k \<le> last (xs :: int list)"
  by (induction xs) auto

lemma last_filter_upto:
  fixes a b :: int
  assumes "filter P [a..b] \<noteq> []"
  shows "a \<le> last (filter P [a..b]) \<and> last (filter P [a..b]) \<le> b \<and> P (last (filter P [a..b]))
     \<and> (\<forall>k. a \<le> k \<and> k \<le> b \<and> P k \<longrightarrow> k \<le> last (filter P [a..b]))"
proof -
  have "last (filter P [a..b]) \<in> set (filter P [a..b])"
    using assms by (rule last_in_set)
  moreover have "sorted (filter P [a..b])"
    using sorted_wrt_filter [of "(\<le>)" "[a..b]" P] by simp
  then have "k \<le> last (filter P [a..b])" if "k \<in> set (filter P [a..b])" for k
    using that by (rule sorted_le_last)
  ultimately show ?thesis by auto
qed

lemma chunk_end_rule:
  assumes "0 \<le> start" "0 \<le> chunk_size"
  shows "chunk_end s chunk_size start =
     (if start + chunk_size < int (length s) then boundary_rule s chunk_size start
      else start + chunk_size)"
proof (cases "start + chunk_size < int (length s)")
  case False
  then show ?thesis by (simp add: chunk_end_def)
next
  case True
  let ?fin = "start + chunk_size"
  let ?se = "sentence_end s start ?fin"
  let ?hits = "filter (\<lambda>k. is_boundary (s ! nat k)) [start + 1 .. ?fin - 1]"
  have fin: "0 \<le> ?fin" "?fin \<le> int (length s)" using assms True by auto
  note S = sentence_end_spec [OF assms(1) fin]
  have br: "boundary_rule s chunk_size start = (if ?hits = [] then ?fin else last ?hits + 1)"
    using True by (simp add: boundary_rule_def Let_def min_def)
  have ce: "chunk_end s chunk_size start = (if start < ?se then ?se + 1 else ?fin)"
    using True by (simp add: chunk_end_def Let_def)
  show ?thesis
  proof (cases "?hits = []")
    case True
    have "\<not> start < ?se"
    proof
      assume lt: "start < ?se"
      with S assms have "start + 1 \<le> ?se \<and> ?se \<le> ?fin - 1 \<and> is_boundary (s ! nat ?se)" by auto
      then have "?se \<in> set ?hits" by simp
      with True show False by simp
    qed
    with True br ce \<open>start + chunk_size < int (length s)\<close> show ?thesis by simp
  next
    case False
    note L = last_filter_upto [OF False]
    let ?h = "last ?hits"
    from L S have "?h \<le> ?se" by auto
    moreover from L have "start < ?h" by auto
    ultimately have lt: "start < ?se" by simp
    with S assms have "start + 1 \<le> ?se \<and> ?se \<le> ?fin - 1 \<and> is_boundary (s ! nat ?se)" by auto
    with L have "?se \<le> ?h" by blast
    with \<open>?h \<le> ?se\<close> have "?se = ?h" by simp
    with False br ce lt \<open>start + chunk_size < int (length s)\<close> show ?thesis by simp
  qed
qed

lemma loop_body_progress: "fst st < fst (loop_body s chunk_size overlap st)"
  by (cases st) (auto simp add: loop_body_def Let_def)

lemma loop_body_segments:
  assumes "seg \<in> set (snd (snd (loop_body s chunk_size overlap st)))"
  shows "seg \<in> set (snd (snd st))
     \<or> (\<exists>i. text_metadata seg = Some \<lparr>chunk_index = i, start_pos = fst st, end_pos = chunk_end s chunk_size (fst st)\<rparr>)"
  using assms by (cases st) (auto simp add: loop_body_def Let_def split: if_splits)

lemma split_loop_segments:
  assumes "0 \<le> fst st"
    and "seg \<in> set (snd (snd (split_loop s chunk_size overlap st)))"
    and "text_metadata seg = Some m"
  shows "seg \<in> set (snd (snd st))
     \<or> (0 \<le> start_pos m \<and> end_pos m = chunk_end s chunk_size (start_pos m))"
  using assms
proof (induction s chunk_size overlap st rule: split_loop.induct)
  case (1 s chunk_size overlap st)
  show ?case
  proof (cases "fst st < int (length s)")
    case False
    with "1.prems" show ?thesis by (simp add: split_loop.simps [of s chunk_size overlap st])
  next
    case True
    have pos: "0 \<le> fst (loop_body s chunk_size overlap st)"
      using loop_body_progress [of st s chunk_size overlap] "1.prems"(1) by linarith
    from True "1.prems"(2) have "seg \<in> set (snd (snd (split_loop s chunk_size overlap (loop_body s chunk_size overlap st))))"
      by (simp add: split_loop.simps [of s chunk_size overlap st])
    from "1.IH" [OF True pos this "1.prems"(3)]
    show ?thesis
    proof
      assume "seg \<in> set (snd (snd (loop_body s chunk_size overlap st)))"
      from loop_body_segments [OF this] "1.prems"(1,3) show ?thesis by auto
    next
      assume "0 \<le> start_pos m \<and> end_pos m = chunk_end s chunk_size (start_pos m)"
      then show ?thesis by simp
    qed
  qed
qed


text \<open>
  Claim C4, as stated: the boundary rule gives the end of every chunk, the one cut from the
  final window included. The text \<open>ab. cd\<close> is one window; the rule ends the chunk after
  the full stop, at 3, and the code ends it at \<open>start + chunk_size\<close>.
\<close>

theorem final_window_ignores_boundary:
  "split_text ''ab. cd'' 1000 200 =
     [\<lparr>text_content = ''ab. cd'', text_metadata = Some \<lparr>chunk_index = 0, start_pos = 0, end_pos = 1000\<rparr>\<rparr>]
   \<and> boundary_rule (py_strip (re_sub_ws ''ab. cd'')) 1000 0 = 3"
  by code_simp


text \<open>
  Claim C4, amended. For a chunk size that is not negative, every chunk with metadata
  starts at a position that is not negative and ends as the boundary rule says when
  \<open>start + chunk_size\<close> lies before the end of the normalised text, and exactly at
  \<open>start + chunk_size\<close> otherwise (no boundary is looked for in the final window).
\<close>

theorem chunk_end_guarded_boundary_rule:
  assumes "0 \<le> chunk_size"
    and "seg \<in> set (split_text txt chunk_size overlap)"
    and "text_metadata seg = Some m"
  shows "0 \<le> start_pos m
     \<and> end_pos m =
        (if start_pos m + chunk_size < int (length (py_strip (re_sub_ws txt)))
         then boundary_rule (py_strip (re_sub_ws txt)) chunk_size (start_pos m)
         else start_pos m + chunk_size)"
proof -
  let ?s = "py_strip (re_sub_ws txt)"
  from assms(2,3) have "seg \<in> set (snd (snd (split_loop ?s chunk_size overlap (0, 0, []))))"
    by (auto simp: split_text_def Let_def split: if_splits)
  from split_loop_segments [OF _ this assms(3)]
  have "0 \<le> start_pos m \<and> end_pos m = chunk_end ?s chunk_size (start_pos m)" by simp
  then show ?thesis using chunk_end_rule [OF _ assms(1), of "start_pos m" ?s] by simp
qed

theorem chunk_end_guarded_boundary_rule_witness:
  "(0::int) \<le> 12
   \<and> \<lparr>text_content = ''One. Two!'', text_metadata = Some \<lparr>chunk_index = 0, start_pos = 0, end_pos = 9\<rparr>\<rparr>
        \<in> set (split_text ''One. Two! Three? Four five six seven'' 12 3)
   \<and> 0 \<le> start_pos \<lparr>chunk_index = 0, start_pos = 0, end_pos = 9\<rparr>
   \<and> end_pos \<lparr>chunk_index = 0, start_pos = 0, end_pos = 9\<rparr> =
        (if start_pos \<lparr>chunk_index = 0, start_pos = 0, end_pos = 9\<rparr> + 12
              < int (length (py_strip (re_sub_ws ''One. Two! Three? Four five six seven'')))
         then boundary_rule (py_strip (re_sub_ws ''One. Two! Three? Four five six seven'')) 12
                (start_pos \<lparr>chunk_index = 0, start_pos = 0, end_pos = 9\<rparr>)
         else start_pos \<lparr>chunk_index = 0, start_pos = 0, end_pos = 9\<rparr> + 12)
   \<and> boundary_rule (py_strip (re_sub_ws ''One. Two! Three? Four five six seven'')) 12 0 = 9"
proof -
  have h1: "(0::int) \<le> 12" by simp
  have h2: "\<lparr>text_content = ''One. Two!'', text_metadata = Some \<lparr>chunk_index = 0, start_pos = 0, end_pos = 9\<rparr>\<rparr>
        \<in> set (split_text ''One. Two! Three? Four five six seven'' 12 3)" by code_simp
  have h3: "text_metadata \<lparr>text_content = ''One. Two!'', text_metadata = Some \<lparr>chunk_index = 0, start_pos = 0, end_pos = 9\<rparr>\<rparr>
       = Some \<lparr>chunk_index = 0, start_pos = 0, end_pos = 9\<rparr>" by simp
  have v: "boundary_rule (py_strip (re_sub_ws ''One. Two! Three? Four five six seven'')) 12 0 = 9"
    by code_simp
  from chunk_end_guarded_boundary_rule [OF h1 h2 h3] h1 h2 v show ?thesis by blast
qed


text \<open>
  Claim C9. Every pass through the loop sets \<open>start\<close> to \<open>max(start + 1, end - overlap)\<close>,
  which moves it forward whatever the chunk size and the overlap are; after at most
  \<open>len(text) - start\<close> passes the loop condition \<open>start < len(text)\<close> fails, and the loop
  returns the state reached then.
\<close>

theorem segmenter_terminates:
  "fst (loop_body s chunk_size overlap st) = max (fst st + 1) (chunk_end s chunk_size (fst st) - overlap)
   \<and> fst st < fst (loop_body s chunk_size overlap st)
   \<and> (\<exists>n. n \<le> nat (int (length s) - fst st)
          \<and> int (length s) \<le> fst ((loop_body s chunk_size overlap ^^ n) st)
          \<and> split_loop s chunk_size overlap st = (loop_body s chunk_size overlap ^^ n) st)"
proof -
  have step: "fst (loop_body s chunk_size overlap st) = max (fst st + 1) (chunk_end s chunk_size (fst st) - overlap)"
    by (cases st) (simp add: loop_body_def Let_def)
  have "\<exists>n. n \<le> nat (int (length s) - fst st)
          \<and> int (length s) \<le> fst ((loop_body s chunk_size overlap ^^ n) st)
          \<and> split_loop s chunk_size overlap st = (loop_body s chunk_size overlap ^^ n) st"
  proof (induction s chunk_size overlap st rule: split_loop.induct)
    case (1 s chunk_size overlap st)
    show ?case
    proof (cases "fst st < int (length s)")
      case False
      then have "0 \<le> nat (int (length s) - fst st)
          \<and> int (length s) \<le> fst ((loop_body s chunk_size overlap ^^ 0) st)
          \<and> split_loop s chunk_size overlap st = (loop_body s chunk_size overlap ^^ 0) st"
        by (simp add: split_loop.simps [of s chunk_size overlap st])
      then show ?thesis by blast
    next
      case True
      from "1.IH" [OF True] obtain n where
        n: "n \<le> nat (int (length s) - fst (loop_body s chunk_size overlap st))"
           "int (length s) \<le> fst ((loop_body s chunk_size overlap ^^ n) (loop_body s chunk_size overlap st))"
           "split_loop s chunk_size overlap (loop_body s chunk_size overlap st)
              = (loop_body s chunk_size overlap ^^ n) (loop_body s chunk_size overlap st)"
        by blast
      have "Suc n \<le> nat (int (length s) - fst st)"
        using n(1) True loop_body_progress [of st s chunk_size overlap] by linarith
      moreover have "int (length s) \<le> fst ((loop_body s chunk_size overlap ^^ Suc n) st)
          \<and> split_loop s chunk_size overlap st = (loop_body s chunk_size overlap ^^ Suc n) st"
        using n True by (simp add: funpow_swap1 split_loop.simps [of s chunk_size overlap st])
      ultimately show ?thesis by blast
    qed
  qed
  with step loop_body_progress show ?thesis by blast
qed

theorem segmenter_terminates_witness:
  "(fst (loop_body ''ab. cd'' 2 5 (0, 0, [])) = max (fst ((0, 0, []) :: int \<times> nat \<times> segment list) + 1)
                                                   (chunk_end ''ab. cd'' 2 (fst ((0, 0, []) :: int \<times> nat \<times> segment list)) - 5)
    \<and> fst ((0, 0, []) :: int \<times> nat \<times> segment list) < fst (loop_body ''ab. cd'' 2 5 (0, 0, []))
    \<and> (\<exists>n. n \<le> nat (int (length ''ab. cd'') - fst ((0, 0, []) :: int \<times> nat \<times> segment list))
          \<and> int (length ''ab. cd'') \<le> fst ((loop_body ''ab. cd'' 2 5 ^^ n) (0, 0, []))
          \<and> split_loop ''ab. cd'' 2 5 (0, 0, []) = (loop_body ''ab. cd'' 2 5 ^^ n) (0, 0, [])))
   \<and> fst (loop_body ''ab. cd'' 2 5 (0, 0, [])) = 1
   \<and> fst (split_loop ''ab. cd'' 2 5 (0, 0, [])) = 6"
proof -
  have v: "fst (loop_body ''ab. cd'' 2 5 (0, 0, [])) = 1
   \<and> fst (split_loop ''ab. cd'' 2 5 (0, 0, [])) = 6" by code_simp
  show ?thesis by (rule conjI [OF segmenter_terminates [of "''ab. cd''" 2 5 "(0, 0, [])"] v])
qed

end
